theory Spec2Isabelle
  imports Main "HOL-Library.AList" "HOL-Library.Sublist"
begin

section \<open>Cell values and strings\<close>

text \<open>
  A Python \<open>str\<close> is a sequence of Unicode code points, so it is modelled as a list of
  natural numbers (one per code point). The Korean literals of \<open>app.py\<close> are written by
  their code points.
\<close>

type_synonym pystr = "nat list"

text \<open>
  A cell of a row tuple is a text, or a value that is not a \<open>str\<close>. The code only asks
  \<open>isinstance(item, str)\<close> and the truth value of a cell, so a number stands for every
  non-text scalar and \<open>Missing\<close> for \<open>None\<close>.
\<close>

datatype cell = Str pystr | Number int | Missing

fun isinstance_str :: "cell \<Rightarrow> bool" where
  "isinstance_str (Str s) = True"
| "isinstance_str (Number n) = False"
| "isinstance_str Missing = False"

fun truthy :: "cell \<Rightarrow> bool" where
  "truthy (Str s) = (s \<noteq> [])"
| "truthy (Number n) = (n \<noteq> 0)"
| "truthy Missing = False"

text \<open>\<open>item.replace(" ", "")\<close>: every occurrence of U+0020 is removed, nothing else.\<close>

definition replace_space :: "pystr \<Rightarrow> pystr" where
  "replace_space s = filter (\<lambda>c. c \<noteq> 0x20) s"

text \<open>\<open>txt in target_value\<close> on two strings is substring containment.\<close>

definition str_in :: "pystr \<Rightarrow> pystr \<Rightarrow> bool" where
  "str_in txt s = sublist txt s"

definition any_in :: "pystr list \<Rightarrow> pystr \<Rightarrow> bool" where
  "any_in lits s = list_ex (\<lambda>txt. str_in txt s) lits"

definition trigger_literals :: "pystr list" where
  "trigger_literals =
     [[0xBC18, 0xC601, 0xC5EC, 0xBD80],
      [0xC801, 0xD569, 0xC5EC, 0xBD80]]"

definition accept_literals :: "pystr list" where
  "accept_literals =
     [[0xBC18, 0xC601],
      [0xBD80, 0xBD84, 0xBC18, 0xC601],
      [0xAD8C, 0xACE0],
      [0xC801, 0xD569],
      [0xC870, 0xAC74, 0xBD80, 0xC801, 0xD569]]"

definition reject_literals :: "pystr list" where
  "reject_literals =
     [[0xBBF8, 0xBC18, 0xC601],
      [0xD574, 0xB2F9, 0xC5C6, 0xC74C],
      [0xD574, 0xB2F9, 0xC0AC, 0xD56D, 0x20, 0xC5C6, 0xC74C]]"

section \<open>The table model and \<open>extract_columns\<close>\<close>

text \<open>
  The pydantic model \<open>Table\<close>. Both dictionaries are association lists kept in insertion
  order, written with \<open>AList.update\<close> as Python's \<open>d[k] = v\<close> and read with \<open>map_of\<close>.
\<close>

record table =
  columns :: "(nat \<times> pystr) list"
  rows :: "(pystr \<times> cell) list list"
  target_index :: nat

text \<open>
  One pass of the loop body of \<open>extract_columns\<close>; the state is the pair
  \<open>(columns, recent_columns)\<close>.
\<close>

fun extract_step :: "(nat \<times> pystr) list \<times> pystr set \<Rightarrow> nat \<times> cell \<Rightarrow> (nat \<times> pystr) list \<times> pystr set" where
  "extract_step (cols, recent_columns) (idx, item) =
     (case item of
        Str s \<Rightarrow>
          if s \<notin> recent_columns
          then (AList.update idx s cols, insert s recent_columns)
          else (cols, recent_columns)
      | Number n \<Rightarrow> (cols, recent_columns)
      | Missing \<Rightarrow> (cols, recent_columns))"

definition extract_loop :: "cell list \<Rightarrow> (nat \<times> pystr) list \<times> pystr set" where
  "extract_loop row = foldl extract_step ([], {}) (enumerate 0 row)"

definition extract_columns :: "cell list \<Rightarrow> (nat \<times> pystr) list" where
  "extract_columns row = fst (extract_loop row)"

section \<open>\<open>process_extracted_table\<close>\<close>

datatype error = AttributeError | IndexError

record seg_state =
  table_detected :: bool
  curr_table :: "table option"
  extracted_tables :: "table list"

definition init_state :: seg_state where
  "init_state = \<lparr>table_detected = False, curr_table = None, extracted_tables = []\<rparr>"

text \<open>The test \<open>item and isinstance(item, str)\<close> followed by the comparison with the two markers.\<close>

definition is_trigger :: "cell \<Rightarrow> bool" where
  "is_trigger item =
     (truthy item \<and> isinstance_str item \<and>
      (case item of Str s \<Rightarrow> replace_space s \<in> set trigger_literals
                  | Number n \<Rightarrow> False
                  | Missing \<Rightarrow> False))"

text \<open>The inner \<open>for\<close> loop of the inactive branch, left by \<open>break\<close> at the first match.\<close>

fun find_trigger :: "(nat \<times> cell) list \<Rightarrow> nat option" where
  "find_trigger [] = None"
| "find_trigger ((index, item) # rest) =
     (if is_trigger item then Some index else find_trigger rest)"

text \<open>Reading a tuple by position raises \<open>IndexError\<close> past its end.\<close>

definition getitem :: "cell list \<Rightarrow> nat \<Rightarrow> error + cell" where
  "getitem row i = (if i < length row then Inr (row ! i) else Inl IndexError)"

definition target_value :: "table \<Rightarrow> cell list \<Rightarrow> error + cell" where
  "target_value t row =
     (if target_index t < length row then getitem row (target_index t) else Inr (Str []))"

text \<open>
  The loop that fills \<open>curr_row\<close>. The test \<open>curr_table.columns.get(index, None)\<close> is a
  truth test: it fails for a missing key and for a header that is the empty string.
\<close>

fun project_step :: "(nat \<times> pystr) list \<Rightarrow> (pystr \<times> cell) list \<Rightarrow> nat \<times> cell \<Rightarrow> (pystr \<times> cell) list" where
  "project_step cols curr_row (index, item) =
     (case map_of cols index of
        None \<Rightarrow> curr_row
      | Some h \<Rightarrow> if h \<noteq> [] then AList.update h item curr_row else curr_row)"

definition build_row :: "(nat \<times> pystr) list \<Rightarrow> cell list \<Rightarrow> (pystr \<times> cell) list" where
  "build_row cols row = foldl (project_step cols) [] (enumerate 0 row)"

text \<open>
  The body of the outer \<open>for\<close> loop for one row tuple. Reading \<open>curr_table.target_index\<close>
  while \<open>curr_table\<close> is \<open>None\<close> would raise \<open>AttributeError\<close>.
\<close>

definition step :: "seg_state \<Rightarrow> cell list \<Rightarrow> error + seg_state" where
  "step st row =
     (if \<not> table_detected st then
        (case find_trigger (enumerate 0 row) of
           None \<Rightarrow> Inr st
         | Some index \<Rightarrow>
             Inr (st\<lparr>table_detected := True,
                     curr_table := Some \<lparr>columns = extract_columns row, rows = [], target_index = index\<rparr>\<rparr>))
      else
        (case curr_table st of
           None \<Rightarrow> Inl AttributeError
         | Some t \<Rightarrow>
             (case target_value t row of
                Inl e \<Rightarrow> Inl e
              | Inr v \<Rightarrow>
                  (case v of
                     Str tv \<Rightarrow>
                       if any_in accept_literals tv then
                         Inr (st\<lparr>curr_table := Some (t\<lparr>rows := rows t @ [build_row (columns t) row]\<rparr>)\<rparr>)
                       else if any_in reject_literals tv then Inr st
                       else Inr (st\<lparr>extracted_tables := extracted_tables st @ [t],
                                    curr_table := None,
                                    table_detected := False\<rparr>)
                   | Number n \<Rightarrow> Inr st
                   | Missing \<Rightarrow> Inr st))))"

fun run_rows :: "seg_state \<Rightarrow> cell list list \<Rightarrow> error + seg_state" where
  "run_rows st [] = Inr st"
| "run_rows st (row # rest) =
     (case step st row of Inl e \<Rightarrow> Inl e | Inr st' \<Rightarrow> run_rows st' rest)"

text \<open>The statement after the loop: \<open>if curr_table: extracted_tables.append(curr_table)\<close>.\<close>

definition flush :: "seg_state \<Rightarrow> table list" where
  "flush st =
     (case curr_table st of
        None \<Rightarrow> extracted_tables st
      | Some t \<Rightarrow> extracted_tables st @ [t])"

definition process_rows :: "cell list list \<Rightarrow> error + table list" where
  "process_rows tuples =
     (case run_rows init_state tuples of Inl e \<Rightarrow> Inl e | Inr st \<Rightarrow> Inr (flush st))"

text \<open>
  A data frame is its rows, each with its index label. \<open>df.itertuples()\<close> yields one tuple
  per row whose position 0 holds the index label and whose positions 1, 2, ... hold the
  cells.
\<close>

type_synonym dataframe = "(cell \<times> cell list) list"

definition itertuples :: "dataframe \<Rightarrow> cell list list" where
  "itertuples df = map (\<lambda>(label, cells). label # cells) df"

definition process_extracted_table :: "dataframe \<Rightarrow> error + table list" where
  "process_extracted_table df = process_rows (itertuples df)"

section \<open>Invariants of the scan\<close>

text \<open>
  While a table is detected there is a current table. A table is well formed when its
  target index is a key of its column map with a non-empty header, its headers are
  pairwise distinct and each of its records holds, under the target header, a text with an
  accept literal.
\<close>

definition consistent :: "seg_state \<Rightarrow> bool" where
  "consistent st = (table_detected st \<longrightarrow> curr_table st \<noteq> None)"

definition good_table :: "table \<Rightarrow> bool" where
  "good_table t =
     (\<exists>h. map_of (columns t) (target_index t) = Some h \<and> h \<noteq> [] \<and>
          distinct (map snd (columns t)) \<and>
          (\<forall>r\<in>set (rows t). \<exists>tv. map_of r h = Some (Str tv) \<and> any_in accept_literals tv))"

definition inv_state :: "seg_state \<Rightarrow> bool" where
  "inv_state st =
     (consistent st \<and> (\<forall>t\<in>set (extracted_tables st). good_table t) \<and>
      (\<forall>t. curr_table st = Some t \<longrightarrow> good_table t))"

section \<open>Example inputs\<close>

text \<open>
  Example frames. Every frame carries the default index 0, 1, 2, ... as its labels.
  \<open>scenario_A\<close> is Scenario A of the specification.
\<close>

definition scenario_A :: dataframe where
  "scenario_A =
     [(Number 0, [Str [], Str [0xC801, 0xD569, 0xC5EC, 0xBD80], Str [], Str [0xBE44, 0xACE0]]),
      (Number 1, [Str [0x58], Str [0xC801, 0xD569], Str [], Str [0x6F, 0x6B]]),
      (Number 2, [Str [0x59], Str [0xBBF8, 0xBC18, 0xC601], Str [], Str [0x6E, 0x2F, 0x61]]),
      (Number 3, [Str [0x5A], Str [0xBCF4, 0xB958], Str [], Str [0x73, 0x74, 0x6F, 0x70]])]"

text \<open>A marker row followed by one row whose target cell is an accept literal.\<close>

definition frame_one_kept :: dataframe where
  "frame_one_kept =
     [(Number 0, [Str [0xC801, 0xD569, 0xC5EC, 0xBD80]]),
      (Number 1, [Str [0xC801, 0xD569]])]"

text \<open>A frame that holds nothing but a marker row.\<close>

definition frame_marker_only :: dataframe where
  "frame_marker_only = [(Number 0, [Str [0xBC18, 0xC601, 0xC5EC, 0xBD80]])]"

text \<open>
  A marker row, then a row whose target cell is neither accepted nor rejected and which
  holds a marker in another column, then a row that the second marker would accept.
\<close>

definition frame_boundary :: dataframe where
  "frame_boundary =
     [(Number 0, [Str [0xC801, 0xD569, 0xC5EC, 0xBD80], Str [0xBE44, 0xACE0]]),
      (Number 1, [Str [0xBCF4, 0xB958], Str [0xBC18, 0xC601, 0xC5EC, 0xBD80]]),
      (Number 2, [Str [0x78], Str [0xBC18, 0xC601]])]"

text \<open>A marker row, a row with a number in the target column, and an accepted row.\<close>

definition frame_numeric :: dataframe where
  "frame_numeric =
     [(Number 0, [Str [0xC801, 0xD569, 0xC5EC, 0xBD80]]),
      (Number 1, [Number 5]),
      (Number 2, [Str [0xC801, 0xD569]])]"

text \<open>
  The normalisation in the words of the specification, "after removing all whitespace
  characters", for comparison with \<open>replace_space\<close>: the ASCII whitespace code points TAB,
  LF, VT, FF, CR and space are removed.
\<close>

definition spec_remove_whitespace :: "pystr \<Rightarrow> pystr" where
  "spec_remove_whitespace s = filter (\<lambda>c. c \<notin> {0x09, 0x0A, 0x0B, 0x0C, 0x0D, 0x20}) s"

text \<open>A cell that holds the first marker with a line break inside, then an accepted row.\<close>

definition frame_line_break :: dataframe where
  "frame_line_break =
     [(Number 0, [Str [0xBC18, 0xC601, 0x0A, 0xC5EC, 0xBD80]]),
      (Number 1, [Str [0xBC18, 0xC601]])]"

section \<open>Facts about \<open>extract_columns\<close>\<close>

lemma update_fresh: "k \<notin> fst ` set al \<Longrightarrow> AList.update k v al = al @ [(k, v)]"
  by (induction al) auto

lemma extract_loop_Nil: "extract_loop [] = ([], {})"
  by (simp add: extract_loop_def)

lemma extract_loop_snoc:
  "extract_loop (row @ [x]) = extract_step (extract_loop row) (length row, x)"
  by (simp add: extract_loop_def enumerate_append_eq)

lemma extract_loop_recent: "snd (extract_loop row) = {s. Str s \<in> set row}"
proof (induction row rule: rev_induct)
  case Nil
  show ?case by (simp add: extract_loop_Nil)
next
  case (snoc x row)
  obtain cols recent where e: "extract_loop row = (cols, recent)" by (cases "extract_loop row")
  with snoc have r: "recent = {s. Str s \<in> set row}" by simp
  show ?case
    by (cases x) (auto simp: extract_loop_snoc e r)
qed

lemma extract_loop_keys: "fst ` set (fst (extract_loop row)) \<subseteq> {..<length row}"
proof (induction row rule: rev_induct)
  case Nil
  show ?case by (simp add: extract_loop_Nil)
next
  case (snoc x row)
  obtain cols recent where e: "extract_loop row = (cols, recent)" by (cases "extract_loop row")
  with snoc have k: "fst ` set cols \<subseteq> {..<length row}" by simp
  then have fresh: "length row \<notin> fst ` set cols" by auto
  show ?case using k
    by (cases x) (auto simp: extract_loop_snoc e update_fresh [OF fresh] less_Suc_eq)
qed

lemma extract_loop_headers:
  "snd ` set (fst (extract_loop row)) = snd (extract_loop row) \<and> distinct (map snd (fst (extract_loop row)))"
proof (induction row rule: rev_induct)
  case Nil
  show ?case by (simp add: extract_loop_Nil)
next
  case (snoc x row)
  obtain cols recent where e: "extract_loop row = (cols, recent)" by (cases "extract_loop row")
  with snoc have h: "snd ` set cols = recent" "distinct (map snd cols)" by simp_all
  have "fst ` set cols \<subseteq> {..<length row}" using extract_loop_keys [of row] e by simp
  then have fresh: "length row \<notin> fst ` set cols" by auto
  show ?case using h
    by (cases x) (auto simp: extract_loop_snoc e update_fresh [OF fresh])
qed

lemma extract_loop_lookup:
  "(map_of (fst (extract_loop row)) i = Some s) =
     (i < length row \<and> row ! i = Str s \<and> Str s \<notin> set (take i row))"
proof (induction row rule: rev_induct)
  case Nil
  show ?case by (simp add: extract_loop_Nil)
next
  case (snoc x row)
  obtain cols recent where e: "extract_loop row = (cols, recent)" by (cases "extract_loop row")
  with snoc have ih: "(map_of cols i = Some s) = (i < length row \<and> row ! i = Str s \<and> Str s \<notin> set (take i row))" by simp
  have r: "recent = {s. Str s \<in> set row}" using extract_loop_recent [of row] e by simp
  show ?case
  proof (cases "i < length row")
    case True
    then show ?thesis using ih
      by (cases x) (auto simp: extract_loop_snoc e r update_conv' nth_append)
  next
    case False
    then have n: "map_of cols i \<noteq> Some s" using ih by simp
    show ?thesis
    proof (cases "i = length row")
      case True
      then show ?thesis using n
        by (cases x) (auto simp: extract_loop_snoc e r update_conv' nth_append)
    next
      case False
      with \<open>\<not> i < length row\<close> show ?thesis using n
        by (cases x) (auto simp: extract_loop_snoc e r update_conv' nth_append)
    qed
  qed
qed

section \<open>Facts about trigger detection and row projection\<close>

lemma find_trigger_enumerate:
  "(find_trigger (enumerate n row) = Some i) =
     (n \<le> i \<and> i < n + length row \<and> is_trigger (row ! (i - n)) \<and>
      (\<forall>j<i - n. \<not> is_trigger (row ! j)))"
proof (induction row arbitrary: n)
  case Nil
  show ?case by simp
next
  case (Cons x xs)
  show ?case
  proof (cases "is_trigger x")
    case True
    have "i = n" if "n \<le> i" "\<forall>j<i - n. \<not> is_trigger ((x # xs) ! j)"
    proof (rule ccontr)
      assume "i \<noteq> n"
      with that(1) have "0 < i - n" by simp
      with that(2) have "\<not> is_trigger ((x # xs) ! 0)" by blast
      with True show False by simp
    qed
    then show ?thesis using True by auto
  next
    case False
    have "(find_trigger (enumerate n (x # xs)) = Some i) = (find_trigger (enumerate (Suc n) xs) = Some i)"
      using False by simp
    also have "\<dots> = (Suc n \<le> i \<and> i < Suc n + length xs \<and> is_trigger (xs ! (i - Suc n)) \<and>
      (\<forall>j<i - Suc n. \<not> is_trigger (xs ! j)))" by (rule Cons.IH)
    also have "\<dots> = (n \<le> i \<and> i < n + length (x # xs) \<and> is_trigger ((x # xs) ! (i - n)) \<and>
      (\<forall>j<i - n. \<not> is_trigger ((x # xs) ! j)))"
    proof (cases "i \<le> n")
      case True
      then show ?thesis using False by (cases "i = n") auto
    next
      case gt: False
      then obtain d where d: "i = Suc (n + d)" by (metis less_imp_Suc_add not_le)
      have "(\<forall>j<Suc d. \<not> is_trigger ((x # xs) ! j)) = (\<forall>j<d. \<not> is_trigger (xs ! j))"
        using False by (auto simp: less_Suc_eq_0_disj)
      then show ?thesis by (simp add: d)
    qed
    finally show ?thesis .
  qed
qed

lemma find_trigger_None:
  "(find_trigger (enumerate n row) = None) = (\<forall>c\<in>set row. \<not> is_trigger c)"
  by (induction row arbitrary: n) auto

lemma headers_inj:
  assumes "distinct (map snd cols)" "map_of cols i = Some h" "map_of cols j = Some h"
  shows "i = j"
proof -
  have mem: "(i, h) \<in> set cols" "(j, h) \<in> set cols"
    using assms(2,3) by (simp_all add: map_of_SomeD)
  have inj: "inj_on snd (set cols)" using assms(1) by (simp add: distinct_map)
  have "(i, h) = (j, h)"
    by (rule inj_onD [OF inj]) (simp_all add: mem)
  then show ?thesis by simp
qed

lemma build_row_Nil: "build_row cols [] = []"
  by (simp add: build_row_def)

lemma build_row_snoc:
  "build_row cols (row @ [x]) = project_step cols (build_row cols row) (length row, x)"
  by (simp add: build_row_def enumerate_append_eq)

lemma ex_snoc:
  "(\<exists>i<length (row @ [x]). P i \<and> (row @ [x]) ! i = v) =
     ((\<exists>i<length row. P i \<and> row ! i = v) \<or> (P (length row) \<and> x = v))"
proof -
  have "(\<exists>i<length row. P i \<and> (row @ [x]) ! i = v) = (\<exists>i<length row. P i \<and> row ! i = v)"
    by (rule ex_cong1) (simp add: nth_append)
  then show ?thesis
    by (simp add: Ex_less_Suc disj_commute)
qed

lemma build_row_lookup:
  assumes d: "distinct (map snd cols)"
  shows "(map_of (build_row cols row) h = Some v) =
           (h \<noteq> [] \<and> (\<exists>i<length row. map_of cols i = Some h \<and> row ! i = v))"
proof (induction row rule: rev_induct)
  case Nil
  show ?case by (simp add: build_row_Nil)
next
  case (snoc x row)
  let ?n = "length row"
  let ?E = "\<exists>i<?n. map_of cols i = Some h \<and> row ! i = v"
  have split: "(\<exists>i<length (row @ [x]). map_of cols i = Some h \<and> (row @ [x]) ! i = v) =
        (?E \<or> (map_of cols ?n = Some h \<and> x = v))"
    by (rule ex_snoc)
  have ih: "(map_of (build_row cols row) h = Some v) = (h \<noteq> [] \<and> ?E)" by (rule snoc.IH)
  show ?case
  proof (cases "map_of cols ?n")
    case None
    have "build_row cols (row @ [x]) = build_row cols row"
      by (simp add: build_row_snoc None)
    then show ?thesis by (simp only: ih split None) simp
  next
    case (Some h')
    show ?thesis
    proof (cases "h' = []")
      case True
      have "build_row cols (row @ [x]) = build_row cols row"
        by (simp add: build_row_snoc Some True)
      moreover have "\<not> (h \<noteq> [] \<and> map_of cols ?n = Some h)" using Some True by auto
      ultimately show ?thesis by (simp only: ih split) blast
    next
      case ne: False
      have b: "build_row cols (row @ [x]) = AList.update h' x (build_row cols row)"
        by (simp add: build_row_snoc Some ne)
      show ?thesis
      proof (cases "h = h'")
        case True
        have "\<not> ?E"
        proof
          assume ?E
          then obtain i where i: "i < ?n" "map_of cols i = Some h" by blast
          from i(2) True have "map_of cols i = Some h'" by simp
          from headers_inj [OF d this Some] have "i = ?n" .
          with i(1) show False by simp
        qed
        then have r: "(\<exists>i<length (row @ [x]). map_of cols i = Some h \<and> (row @ [x]) ! i = v) = (x = v)"
          unfolding split using Some True by blast
        have "map_of (build_row cols (row @ [x])) h = Some x"
          by (simp add: b update_conv' True)
        then have l: "(map_of (build_row cols (row @ [x])) h = Some v) = (x = v)" by simp
        show ?thesis unfolding l r using ne True by simp
      next
        case False
        have "map_of (build_row cols (row @ [x])) h = map_of (build_row cols row) h"
          using False by (simp add: b update_conv')
        moreover have "map_of cols ?n \<noteq> Some h" using Some False by simp
        ultimately show ?thesis by (simp only: ih split) simp
      qed
    qed
  qed
qed

lemma build_row_keys_distinct: "distinct (map fst (build_row cols row))"
proof (induction row rule: rev_induct)
  case Nil
  show ?case by (simp add: build_row_Nil)
next
  case (snoc x row)
  then show ?case
    by (auto simp: build_row_snoc distinct_update split: option.splits)
qed

lemma not_accept_empty: "\<not> any_in accept_literals []"
  by (simp add: any_in_def str_in_def accept_literals_def sublist_code)

section \<open>The branches of the loop body\<close>

lemma step_inactive:
  "\<not> table_detected st \<Longrightarrow>
   step st row =
     (case find_trigger (enumerate 0 row) of
        None \<Rightarrow> Inr st
      | Some index \<Rightarrow>
          Inr (st\<lparr>table_detected := True,
                  curr_table := Some \<lparr>columns = extract_columns row, rows = [], target_index = index\<rparr>\<rparr>))"
  by (simp add: step_def)

lemma step_keep:
  "table_detected st \<Longrightarrow> curr_table st = Some t \<Longrightarrow> target_value t row = Inr (Str tv) \<Longrightarrow>
   any_in accept_literals tv \<Longrightarrow>
   step st row = Inr (st\<lparr>curr_table := Some (t\<lparr>rows := rows t @ [build_row (columns t) row]\<rparr>)\<rparr>)"
  by (simp add: step_def)

lemma step_skip:
  "table_detected st \<Longrightarrow> curr_table st = Some t \<Longrightarrow> target_value t row = Inr (Str tv) \<Longrightarrow>
   \<not> any_in accept_literals tv \<Longrightarrow> any_in reject_literals tv \<Longrightarrow>
   step st row = Inr st"
  by (simp add: step_def)

lemma step_terminate:
  "table_detected st \<Longrightarrow> curr_table st = Some t \<Longrightarrow> target_value t row = Inr (Str tv) \<Longrightarrow>
   \<not> any_in accept_literals tv \<Longrightarrow> \<not> any_in reject_literals tv \<Longrightarrow>
   step st row = Inr (st\<lparr>extracted_tables := extracted_tables st @ [t],
                         curr_table := None, table_detected := False\<rparr>)"
  by (simp add: step_def)

lemma step_nontext:
  "table_detected st \<Longrightarrow> curr_table st = Some t \<Longrightarrow> target_value t row = Inr v \<Longrightarrow>
   \<not> isinstance_str v \<Longrightarrow> step st row = Inr st"
  by (cases v) (simp_all add: step_def)

lemma target_value_total: "\<exists>v. target_value t row = Inr v"
  by (simp add: target_value_def getitem_def)

lemma target_value_short:
  "length row \<le> target_index t \<Longrightarrow> target_value t row = Inr (Str [])"
  by (simp add: target_value_def)

lemma target_value_accept:
  assumes "target_value t row = Inr (Str tv)" "any_in accept_literals tv"
  shows "target_index t < length row \<and> row ! target_index t = Str tv"
proof (cases "target_index t < length row")
  case True
  then show ?thesis using assms(1) by (simp add: target_value_def getitem_def)
next
  case False
  then have "tv = []" using assms(1) by (simp add: target_value_def)
  with assms(2) not_accept_empty show ?thesis by simp
qed

section \<open>The scan never fails and keeps its tables well formed\<close>

lemma step_consistent:
  assumes "consistent st"
  shows "\<exists>st'. step st row = Inr st' \<and> consistent st'"
proof (cases "table_detected st")
  case False
  then show ?thesis
    by (cases "find_trigger (enumerate 0 row)") (simp_all add: step_inactive consistent_def)
next
  case True
  with assms obtain t where t: "curr_table st = Some t" by (auto simp: consistent_def)
  obtain v where v: "target_value t row = Inr v" using target_value_total by blast
  show ?thesis
  proof (cases v)
    case (Str tv)
    show ?thesis
    proof (cases "any_in accept_literals tv")
      case acc: True
      show ?thesis using step_keep [OF True t v [unfolded Str] acc]
        by (simp add: consistent_def)
    next
      case nacc: False
      show ?thesis
      proof (cases "any_in reject_literals tv")
        case rej: True
        show ?thesis using step_skip [OF True t v [unfolded Str] nacc rej] assms by simp
      next
        case nrej: False
        show ?thesis using step_terminate [OF True t v [unfolded Str] nacc nrej]
          by (simp add: consistent_def)
      qed
    qed
  next
    case (Number n)
    then show ?thesis using step_nontext [OF True t v] assms by simp
  next
    case Missing
    then show ?thesis using step_nontext [OF True t v] assms by simp
  qed
qed

lemma run_rows_consistent:
  "consistent st \<Longrightarrow> \<exists>st'. run_rows st tuples = Inr st' \<and> consistent st'"
proof (induction tuples arbitrary: st)
  case Nil
  then show ?case by simp
next
  case (Cons row rest)
  from step_consistent [OF Cons.prems, of row]
  obtain st1 where s: "step st row = Inr st1" "consistent st1" by blast
  from Cons.IH [OF s(2)] show ?case by (simp add: s(1))
qed

lemma consistent_init: "consistent init_state"
  by (simp add: consistent_def init_state_def)

lemma is_trigger_Str: "is_trigger c \<Longrightarrow> \<exists>s. c = Str s \<and> s \<noteq> []"
  by (cases c) (simp_all add: is_trigger_def)

lemma extract_columns_lookup:
  "(map_of (extract_columns row) i = Some s) =
     (i < length row \<and> row ! i = Str s \<and> Str s \<notin> set (take i row))"
  by (simp add: extract_columns_def extract_loop_lookup)

lemma extract_columns_distinct: "distinct (map snd (extract_columns row))"
  by (simp add: extract_columns_def extract_loop_headers)

lemma trigger_header:
  assumes "find_trigger (enumerate 0 row) = Some i"
  shows "\<exists>s. row ! i = Str s \<and> s \<noteq> [] \<and> map_of (extract_columns row) i = Some s"
proof -
  from assms have i: "i < length row" "is_trigger (row ! i)" "\<forall>j<i. \<not> is_trigger (row ! j)"
    by (simp_all add: find_trigger_enumerate)
  from is_trigger_Str [OF i(2)] obtain s where s: "row ! i = Str s" "s \<noteq> []" by blast
  have "Str s \<notin> set (take i row)"
  proof
    assume "Str s \<in> set (take i row)"
    then obtain j where j: "j < length (take i row)" "take i row ! j = Str s"
      by (auto simp: in_set_conv_nth)
    then have "j < i" "row ! j = Str s" by simp_all
    with i(2,3) s(1) show False by auto
  qed
  with i(1) s show ?thesis by (simp add: extract_columns_lookup)
qed

lemma new_table_good:
  assumes "find_trigger (enumerate 0 row) = Some i"
  shows "good_table \<lparr>columns = extract_columns row, rows = [], target_index = i\<rparr>"
proof -
  from trigger_header [OF assms] obtain s where
    "s \<noteq> []" "map_of (extract_columns row) i = Some s" by blast
  then show ?thesis by (auto simp: good_table_def extract_columns_distinct)
qed

lemma build_row_target:
  assumes d: "distinct (map snd (columns t))"
    and h: "map_of (columns t) (target_index t) = Some h" "h \<noteq> []"
    and tv: "target_value t row = Inr (Str tv)" "any_in accept_literals tv"
  shows "map_of (build_row (columns t) row) h = Some (Str tv)"
proof -
  from target_value_accept [OF tv] have
    "target_index t < length row" "row ! target_index t = Str tv" by simp_all
  with h have "h \<noteq> [] \<and> (\<exists>i<length row. map_of (columns t) i = Some h \<and> row ! i = Str tv)"
    by blast
  then show ?thesis using build_row_lookup [OF d, of row h "Str tv"] by blast
qed

lemma keep_good:
  assumes g: "good_table t"
    and tv: "target_value t row = Inr (Str tv)" "any_in accept_literals tv"
  shows "good_table (t\<lparr>rows := rows t @ [build_row (columns t) row]\<rparr>)"
proof -
  from g obtain h where h: "map_of (columns t) (target_index t) = Some h" "h \<noteq> []"
    "distinct (map snd (columns t))"
    "\<forall>r\<in>set (rows t). \<exists>tv. map_of r h = Some (Str tv) \<and> any_in accept_literals tv"
    by (auto simp: good_table_def)
  from build_row_target [OF h(3) h(1,2) tv]
  have "map_of (build_row (columns t) row) h = Some (Str tv)" .
  with h tv(2) show ?thesis
    unfolding good_table_def by (intro exI [of _ h]) auto
qed

lemma step_inv:
  assumes i: "inv_state st" and s: "step st row = Inr st'"
  shows "inv_state st'"
proof (cases "table_detected st")
  case False
  show ?thesis
  proof (cases "find_trigger (enumerate 0 row)")
    case None
    with False s i show ?thesis by (simp add: step_inactive)
  next
    case (Some idx)
    from new_table_good [OF Some] False s i Some show ?thesis
      by (auto simp: step_inactive inv_state_def consistent_def)
  qed
next
  case True
  with i obtain t where t: "curr_table st = Some t" by (auto simp: inv_state_def consistent_def)
  with i have g: "good_table t" by (simp add: inv_state_def)
  obtain v where v: "target_value t row = Inr v" using target_value_total by blast
  show ?thesis
  proof (cases v)
    case (Str tv)
    show ?thesis
    proof (cases "any_in accept_literals tv")
      case acc: True
      from keep_good [OF g v [unfolded Str] acc]
      have "good_table (t\<lparr>rows := rows t @ [build_row (columns t) row]\<rparr>)" .
      with step_keep [OF True t v [unfolded Str] acc] s i show ?thesis
        by (auto simp: inv_state_def consistent_def)
    next
      case nacc: False
      show ?thesis
      proof (cases "any_in reject_literals tv")
        case rej: True
        from step_skip [OF True t v [unfolded Str] nacc rej] s i show ?thesis by simp
      next
        case nrej: False
        from step_terminate [OF True t v [unfolded Str] nacc nrej] s i g show ?thesis
          by (auto simp: inv_state_def consistent_def)
      qed
    qed
  next
    case (Number n)
    with step_nontext [OF True t v] s i show ?thesis by simp
  next
    case Missing
    with step_nontext [OF True t v] s i show ?thesis by simp
  qed
qed

lemma run_rows_inv:
  "inv_state st \<Longrightarrow> run_rows st tuples = Inr st' \<Longrightarrow> inv_state st'"
proof (induction tuples arbitrary: st)
  case Nil
  then show ?case by simp
next
  case (Cons row rest)
  from Cons.prems(2) obtain st1 where s: "step st row = Inr st1" "run_rows st1 rest = Inr st'"
    by (auto split: sum.splits)
  from Cons.IH [OF step_inv [OF Cons.prems(1) s(1)] s(2)] show ?case .
qed

lemma inv_init: "inv_state init_state"
  by (simp add: inv_state_def consistent_def init_state_def)

lemma flush_good: "inv_state st \<Longrightarrow> t \<in> set (flush st) \<Longrightarrow> good_table t"
  by (cases "curr_table st") (auto simp: flush_def inv_state_def)

lemma process_rows_good:
  assumes "process_rows tuples = Inr ts" "t \<in> set ts"
  shows "good_table t"
proof -
  from assms(1) obtain st where st: "run_rows init_state tuples = Inr st" "ts = flush st"
    by (auto simp: process_rows_def split: sum.splits)
  from run_rows_inv [OF inv_init st(1)] have "inv_state st" .
  with assms(2) st(2) show ?thesis by (simp add: flush_good)
qed

lemma process_rows_total: "\<exists>ts. process_rows tuples = Inr ts"
proof -
  from run_rows_consistent [OF consistent_init, of tuples]
  obtain st where "run_rows init_state tuples = Inr st" by blast
  then show ?thesis by (simp add: process_rows_def)
qed

section \<open>The claims of the specification\<close>

text \<open>The equations that evaluate a run on a concrete frame.\<close>

lemmas eval_simps =
  process_extracted_table_def process_rows_def itertuples_def init_state_def flush_def
  step_def target_value_def getitem_def extract_columns_def extract_loop_def build_row_def
  is_trigger_def replace_space_def trigger_literals_def accept_literals_def reject_literals_def
  any_in_def str_in_def sublist_code(3)

lemma extract_loop_keys_distinct: "distinct (map fst (fst (extract_loop row)))"
proof (induction row rule: rev_induct)
  case Nil
  show ?case by (simp add: extract_loop_Nil)
next
  case (snoc x row)
  obtain cols recent where e: "extract_loop row = (cols, recent)" by (cases "extract_loop row")
  with snoc have d: "distinct (map fst cols)" by simp
  have "fst ` set cols \<subseteq> {..<length row}" using extract_loop_keys [of row] e by simp
  then have fresh: "length row \<notin> fst ` set cols" by auto
  show ?case using d fresh
    by (cases x) (auto simp: extract_loop_snoc e update_fresh [OF fresh])
qed

subsection \<open>Column maps\<close>

text \<open>
  Claim C7. The column map built from a row holds, at index \<open>i\<close>, the text of cell \<open>i\<close>
  exactly when that cell is a text that does not occur at a smaller index of the row;
  cells that are not text and repeated texts get no entry, so the header names of a
  column map are pairwise distinct (and so are its keys).
\<close>

theorem extract_columns_first_occurrence:
  "((map_of (extract_columns row) i = Some s) =
      (i < length row \<and> row ! i = Str s \<and> Str s \<notin> set (take i row))) \<and>
   distinct (map snd (extract_columns row)) \<and>
   distinct (map fst (extract_columns row))"
proof -
  have "distinct (map fst (extract_columns row))"
    by (simp add: extract_columns_def extract_loop_keys_distinct)
  with extract_columns_lookup [of row i s] extract_columns_distinct [of row]
  show ?thesis by blast
qed

theorem extract_columns_first_occurrence_witness:
  "map_of (extract_columns [Number 0, Str [0x61], Missing, Str [0x61], Str [0x62]]) 1 = Some [0x61] \<and>
   map_of (extract_columns [Number 0, Str [0x61], Missing, Str [0x61], Str [0x62]]) 3 \<noteq> Some [0x61] \<and>
   map_of (extract_columns [Number 0, Str [0x61], Missing, Str [0x61], Str [0x62]]) 2 \<noteq> Some [0x61]"
  using extract_columns_first_occurrence
          [of "[Number 0, Str [0x61], Missing, Str [0x61], Str [0x62]]" 1 "[0x61]"]
        extract_columns_first_occurrence
          [of "[Number 0, Str [0x61], Missing, Str [0x61], Str [0x62]]" 3 "[0x61]"]
        extract_columns_first_occurrence
          [of "[Number 0, Str [0x61], Missing, Str [0x61], Str [0x62]]" 2 "[0x61]"]
  by simp

subsection \<open>No index fault\<close>

text \<open>
  Claim C9. No run raises: the whole scan of a frame (and of any sequence of row tuples,
  of equal lengths or not) returns a list of tables, reading the target cell never fails,
  a row too short for the target index gives the empty text instead of an index fault, and
  the loop body returns a state for every row whenever a table is current.
\<close>

theorem no_index_fault:
  "(\<exists>ts. process_extracted_table df = Inr ts) \<and>
   (\<exists>ts. process_rows tuples = Inr ts) \<and>
   (\<exists>v. target_value t row = Inr v) \<and>
   (length row \<le> target_index t \<longrightarrow> target_value t row = Inr (Str [])) \<and>
   (curr_table st = Some t \<longrightarrow> (\<exists>st'. step st row = Inr st'))"
proof -
  have "curr_table st = Some t \<Longrightarrow> \<exists>st'. step st row = Inr st'"
  proof -
    assume "curr_table st = Some t"
    then have "consistent st" by (simp add: consistent_def)
    from step_consistent [OF this, of row] show ?thesis by blast
  qed
  then show ?thesis
    using process_rows_total [of "itertuples df"] process_rows_total [of tuples]
      target_value_total [of t row] target_value_short [of row t]
    by (simp add: process_extracted_table_def)
qed

theorem no_index_fault_witness:
  "process_rows [[Number 0, Str [0xC801, 0xD569, 0xC5EC, 0xBD80]], [Number 1]] =
     Inr [\<lparr>columns = [(1, [0xC801, 0xD569, 0xC5EC, 0xBD80])], rows = [], target_index = 1\<rparr>] \<and>
   target_value \<lparr>columns = [(1, [0xC801, 0xD569, 0xC5EC, 0xBD80])], rows = [], target_index = 1\<rparr>
     [Number 1] = Inr (Str []) \<and>
   step \<lparr>table_detected = True,
         curr_table = Some \<lparr>columns = [(1, [0xC801, 0xD569, 0xC5EC, 0xBD80])], rows = [], target_index = 1\<rparr>,
         extracted_tables = []\<rparr> [Number 1] =
     Inr \<lparr>table_detected = False, curr_table = None,
          extracted_tables = [\<lparr>columns = [(1, [0xC801, 0xD569, 0xC5EC, 0xBD80])], rows = [], target_index = 1\<rparr>]\<rparr>"
  using no_index_fault
    [of "[]" "[[Number 0, Str [0xC801, 0xD569, 0xC5EC, 0xBD80]], [Number 1]]"
        "\<lparr>columns = [(1, [0xC801, 0xD569, 0xC5EC, 0xBD80])], rows = [], target_index = 1\<rparr>"
        "[Number 1]"
        "\<lparr>table_detected = True,
         curr_table = Some \<lparr>columns = [(1, [0xC801, 0xD569, 0xC5EC, 0xBD80])], rows = [], target_index = 1\<rparr>,
         extracted_tables = []\<rparr>"]
  by (simp add: eval_simps)

subsection \<open>The target header\<close>

text \<open>
  Claim C10. In every table of the output the target index is a key of the column map, the
  header stored there is a non-empty text, and every row record of the table has an entry
  under that header: the value of the target cell of the accepted row, a text that
  contains an accept literal.
\<close>

theorem target_header_recorded:
  assumes "process_extracted_table df = Inr ts" and "t \<in> set ts"
  shows "\<exists>h. map_of (columns t) (target_index t) = Some h \<and> h \<noteq> [] \<and>
             (\<forall>r\<in>set (rows t). \<exists>tv. map_of r h = Some (Str tv) \<and> any_in accept_literals tv)"
proof -
  from assms have "good_table t"
    by (simp add: process_extracted_table_def process_rows_good)
  then show ?thesis unfolding good_table_def by blast
qed

theorem target_header_recorded_witness:
  "process_extracted_table frame_one_kept =
     Inr [\<lparr>columns = [(1, [0xC801, 0xD569, 0xC5EC, 0xBD80])],
           rows = [[([0xC801, 0xD569, 0xC5EC, 0xBD80], Str [0xC801, 0xD569])]],
           target_index = 1\<rparr>] \<and>
   (\<exists>h. map_of [(1, [0xC801, 0xD569, 0xC5EC, 0xBD80])] (1::nat) = Some h \<and> h \<noteq> [] \<and>
        (\<exists>tv. map_of [([0xC801, 0xD569, 0xC5EC, 0xBD80], Str [0xC801, 0xD569])] h = Some (Str tv) \<and>
              any_in accept_literals tv))"
proof -
  have run: "process_extracted_table frame_one_kept =
     Inr [\<lparr>columns = [(1, [0xC801, 0xD569, 0xC5EC, 0xBD80])],
           rows = [[([0xC801, 0xD569, 0xC5EC, 0xBD80], Str [0xC801, 0xD569])]],
           target_index = 1\<rparr>]"
    by (simp add: frame_one_kept_def eval_simps)
  from target_header_recorded [OF run, of "\<lparr>columns = [(1, [0xC801, 0xD569, 0xC5EC, 0xBD80])],
           rows = [[([0xC801, 0xD569, 0xC5EC, 0xBD80], Str [0xC801, 0xD569])]],
           target_index = 1\<rparr>"]
  show ?thesis using run by simp
qed

subsection \<open>Accept before reject\<close>

text \<open>
  Claim C6. When the target text of a row read in the active state contains an accept
  literal and a reject literal, the row is kept: its record is appended to the current
  table, which stays current. The accept test comes first.
\<close>

theorem accept_before_reject:
  assumes "table_detected st" and "curr_table st = Some t"
    and "target_value t row = Inr (Str tv)"
    and "any_in accept_literals tv" and "any_in reject_literals tv"
  shows "step st row =
           Inr (st\<lparr>curr_table := Some (t\<lparr>rows := rows t @ [build_row (columns t) row]\<rparr>)\<rparr>)"
  using assms(1-4) by (rule step_keep)

theorem accept_before_reject_witness:
  "any_in accept_literals [0xBBF8, 0xBC18, 0xC601] \<and>
   any_in reject_literals [0xBBF8, 0xBC18, 0xC601] \<and>
   step \<lparr>table_detected = True,
         curr_table = Some \<lparr>columns = [(1, [0xBC18, 0xC601, 0xC5EC, 0xBD80])], rows = [], target_index = 1\<rparr>,
         extracted_tables = []\<rparr>
        [Number 1, Str [0xBBF8, 0xBC18, 0xC601]] =
     Inr \<lparr>table_detected = True,
          curr_table = Some \<lparr>columns = [(1, [0xBC18, 0xC601, 0xC5EC, 0xBD80])],
                              rows = [[([0xBC18, 0xC601, 0xC5EC, 0xBD80], Str [0xBBF8, 0xBC18, 0xC601])]],
                              target_index = 1\<rparr>,
          extracted_tables = []\<rparr>"
proof -
  let ?t = "\<lparr>columns = [(1, [0xBC18, 0xC601, 0xC5EC, 0xBD80])], rows = [], target_index = 1\<rparr>"
  let ?st = "\<lparr>table_detected = True, curr_table = Some ?t, extracted_tables = []\<rparr>"
  let ?row = "[Number 1, Str [0xBBF8, 0xBC18, 0xC601]]"
  have a: "any_in accept_literals [0xBBF8, 0xBC18, 0xC601]"
    by (simp add: any_in_def str_in_def accept_literals_def sublist_code(3))
  have r: "any_in reject_literals [0xBBF8, 0xBC18, 0xC601]"
    by (simp add: any_in_def str_in_def reject_literals_def sublist_code(3))
  have d: "table_detected ?st" by simp
  have c: "curr_table ?st = Some ?t" by simp
  have v: "target_value ?t ?row = Inr (Str [0xBBF8, 0xBC18, 0xC601])"
    by (simp add: target_value_def getitem_def)
  from accept_before_reject [OF d c v a r] a r show ?thesis
    by (simp add: build_row_def)
qed

subsection \<open>Flush at the end of the input\<close>

text \<open>
  Claim C8. When the rows are exhausted the table that is still current is appended to the
  output, once, after the tables closed during the scan; with no current table the output
  is the list of closed tables. A frame that holds only a marker row gives one table with
  no rows.
\<close>

theorem flush_on_exhaustion:
  "(run_rows init_state (itertuples df) = Inr st \<longrightarrow> curr_table st = Some t \<longrightarrow>
      process_extracted_table df = Inr (extracted_tables st @ [t])) \<and>
   (run_rows init_state (itertuples df) = Inr st \<longrightarrow> curr_table st = None \<longrightarrow>
      process_extracted_table df = Inr (extracted_tables st)) \<and>
   (find_trigger (enumerate 0 (label # cells)) = Some i \<longrightarrow>
      process_extracted_table [(label, cells)] =
        Inr [\<lparr>columns = extract_columns (label # cells), rows = [], target_index = i\<rparr>])"
proof -
  have "find_trigger (enumerate 0 (label # cells)) = Some i \<Longrightarrow>
      process_extracted_table [(label, cells)] =
        Inr [\<lparr>columns = extract_columns (label # cells), rows = [], target_index = i\<rparr>]"
    by (simp add: process_extracted_table_def process_rows_def itertuples_def
        step_inactive init_state_def flush_def)
  then show ?thesis
    by (simp add: process_extracted_table_def process_rows_def flush_def)
qed

theorem flush_on_exhaustion_witness:
  "run_rows init_state (itertuples frame_marker_only) =
     Inr \<lparr>table_detected = True,
          curr_table = Some \<lparr>columns = [(1, [0xBC18, 0xC601, 0xC5EC, 0xBD80])], rows = [], target_index = 1\<rparr>,
          extracted_tables = []\<rparr> \<and>
   process_extracted_table frame_marker_only =
     Inr [\<lparr>columns = [(1, [0xBC18, 0xC601, 0xC5EC, 0xBD80])], rows = [], target_index = 1\<rparr>] \<and>
   process_extracted_table [] = Inr [] \<and>
   find_trigger (enumerate 0 [Number 0, Str [0xBC18, 0xC601, 0xC5EC, 0xBD80]]) = Some 1 \<and>
   process_extracted_table [(Number 0, [Str [0xBC18, 0xC601, 0xC5EC, 0xBD80]])] =
     Inr [\<lparr>columns = extract_columns [Number 0, Str [0xBC18, 0xC601, 0xC5EC, 0xBD80]],
           rows = [], target_index = 1\<rparr>]"
proof -
  let ?t = "\<lparr>columns = [(1, [0xBC18, 0xC601, 0xC5EC, 0xBD80])], rows = [], target_index = 1\<rparr>"
  let ?st = "\<lparr>table_detected = True, curr_table = Some ?t, extracted_tables = []\<rparr>"
  have run: "run_rows init_state (itertuples frame_marker_only) = Inr ?st"
    by (simp add: frame_marker_only_def eval_simps)
  have run0: "run_rows init_state (itertuples []) = Inr init_state"
    by (simp add: itertuples_def)
  from flush_on_exhaustion [of frame_marker_only ?st ?t] run
  have "process_extracted_table frame_marker_only = Inr [?t]" by simp
  moreover from flush_on_exhaustion [of "[]" init_state] run0
  have "process_extracted_table [] = Inr []" by (simp add: init_state_def)
  moreover have ft: "find_trigger (enumerate 0 [Number 0, Str [0xBC18, 0xC601, 0xC5EC, 0xBD80]]) = Some 1"
    by (simp add: is_trigger_def replace_space_def trigger_literals_def)
  moreover from flush_on_exhaustion [of _ _ _ "Number 0" "[Str [0xBC18, 0xC601, 0xC5EC, 0xBD80]]" 1] ft
  have "process_extracted_table [(Number 0, [Str [0xBC18, 0xC601, 0xC5EC, 0xBD80]])] =
     Inr [\<lparr>columns = extract_columns [Number 0, Str [0xBC18, 0xC601, 0xC5EC, 0xBD80]],
           rows = [], target_index = 1\<rparr>]" by blast
  ultimately show ?thesis using run by simp
qed

subsection \<open>Termination\<close>

text \<open>
  Claim C1, as the code has it. A row read in the active state whose target value is a
  text with neither an accept nor a reject literal closes the current table: the table is
  appended to the output and the state becomes inactive. The row itself is not scanned
  for a marker; the scan goes on with the next row.
\<close>

theorem terminate_without_rescan:
  assumes "table_detected st" and "curr_table st = Some t"
    and "target_value t row = Inr (Str tv)"
    and "\<not> any_in accept_literals tv" and "\<not> any_in reject_literals tv"
  shows "step st row =
           Inr (st\<lparr>extracted_tables := extracted_tables st @ [t],
                   curr_table := None, table_detected := False\<rparr>) \<and>
         run_rows st (row # rest) =
           run_rows (st\<lparr>extracted_tables := extracted_tables st @ [t],
                        curr_table := None, table_detected := False\<rparr>) rest"
  using step_terminate [OF assms] by simp

theorem terminate_without_rescan_witness:
  "step \<lparr>table_detected = True,
         curr_table = Some \<lparr>columns = [(1, [0xC801, 0xD569, 0xC5EC, 0xBD80]), (2, [0xBE44, 0xACE0])],
                             rows = [], target_index = 1\<rparr>,
         extracted_tables = []\<rparr>
        [Number 1, Str [0xBCF4, 0xB958], Str [0x78]] =
     Inr \<lparr>table_detected = False, curr_table = None,
          extracted_tables = [\<lparr>columns = [(1, [0xC801, 0xD569, 0xC5EC, 0xBD80]), (2, [0xBE44, 0xACE0])],
                               rows = [], target_index = 1\<rparr>]\<rparr>"
proof -
  let ?t = "\<lparr>columns = [(1, [0xC801, 0xD569, 0xC5EC, 0xBD80]), (2, [0xBE44, 0xACE0])],
             rows = [], target_index = 1\<rparr>"
  let ?st = "\<lparr>table_detected = True, curr_table = Some ?t, extracted_tables = []\<rparr>"
  let ?row = "[Number 1, Str [0xBCF4, 0xB958], Str [0x78]]"
  have d: "table_detected ?st" by simp
  have c: "curr_table ?st = Some ?t" by simp
  have v: "target_value ?t ?row = Inr (Str [0xBCF4, 0xB958])"
    by (simp add: target_value_def getitem_def)
  have a: "\<not> any_in accept_literals [0xBCF4, 0xB958]"
    by (simp add: any_in_def str_in_def accept_literals_def sublist_code(3))
  have r: "\<not> any_in reject_literals [0xBCF4, 0xB958]"
    by (simp add: any_in_def str_in_def reject_literals_def sublist_code(3))
  from terminate_without_rescan [OF d c v a r, of "[]"] show ?thesis by simp
qed

text \<open>
  Claim C1 as stated fails on \<open>frame_boundary\<close>: the second row closes the table and holds
  a marker at position 2, yet no table is current after it, and the third row, which a
  table started there would accept, is not collected.
\<close>

theorem rescan_counterexample:
  "find_trigger (enumerate 0 [Number 1, Str [0xBCF4, 0xB958], Str [0xBC18, 0xC601, 0xC5EC, 0xBD80]]) = Some 2 \<and>
   step \<lparr>table_detected = True,
         curr_table = Some \<lparr>columns = [(1, [0xC801, 0xD569, 0xC5EC, 0xBD80]), (2, [0xBE44, 0xACE0])],
                             rows = [], target_index = 1\<rparr>,
         extracted_tables = []\<rparr>
        [Number 1, Str [0xBCF4, 0xB958], Str [0xBC18, 0xC601, 0xC5EC, 0xBD80]] =
     Inr \<lparr>table_detected = False, curr_table = None,
          extracted_tables = [\<lparr>columns = [(1, [0xC801, 0xD569, 0xC5EC, 0xBD80]), (2, [0xBE44, 0xACE0])],
                               rows = [], target_index = 1\<rparr>]\<rparr> \<and>
   process_extracted_table frame_boundary =
     Inr [\<lparr>columns = [(1, [0xC801, 0xD569, 0xC5EC, 0xBD80]), (2, [0xBE44, 0xACE0])],
           rows = [], target_index = 1\<rparr>]"
  by (simp add: frame_boundary_def eval_simps)

subsection \<open>Target values that are not text\<close>

text \<open>
  Claim C2, as the code has it. A row read in the active state whose target value is not
  a text is skipped: no record is appended, nothing is emitted, and the table stays
  current for the rows that follow.
\<close>

theorem non_text_target_skipped:
  assumes "table_detected st" and "curr_table st = Some t"
    and "target_value t row = Inr v" and "\<not> isinstance_str v"
  shows "step st row = Inr st \<and> run_rows st (row # rest) = run_rows st rest"
  using step_nontext [OF assms] by simp

theorem non_text_target_skipped_witness:
  "step \<lparr>table_detected = True,
         curr_table = Some \<lparr>columns = [(1, [0xC801, 0xD569, 0xC5EC, 0xBD80])], rows = [], target_index = 1\<rparr>,
         extracted_tables = []\<rparr>
        [Number 1, Number 5] =
     Inr \<lparr>table_detected = True,
          curr_table = Some \<lparr>columns = [(1, [0xC801, 0xD569, 0xC5EC, 0xBD80])], rows = [], target_index = 1\<rparr>,
          extracted_tables = []\<rparr>"
proof -
  let ?t = "\<lparr>columns = [(1, [0xC801, 0xD569, 0xC5EC, 0xBD80])], rows = [], target_index = 1\<rparr>"
  let ?st = "\<lparr>table_detected = True, curr_table = Some ?t, extracted_tables = []\<rparr>"
  have d: "table_detected ?st" by simp
  have c: "curr_table ?st = Some ?t" by simp
  have v: "target_value ?t [Number 1, Number 5] = Inr (Number 5)"
    by (simp add: target_value_def getitem_def)
  have n: "\<not> isinstance_str (Number 5)" by simp
  from non_text_target_skipped [OF d c v n, of "[]"] show ?thesis by simp
qed

text \<open>
  Claim C2 as stated fails on \<open>frame_numeric\<close>: after the row with the number 5 in the
  target column the table is still current and nothing has been emitted, and the row
  after it is collected into the same table.
\<close>

theorem numeric_target_counterexample:
  "run_rows init_state (itertuples (take 2 frame_numeric)) =
     Inr \<lparr>table_detected = True,
          curr_table = Some \<lparr>columns = [(1, [0xC801, 0xD569, 0xC5EC, 0xBD80])], rows = [], target_index = 1\<rparr>,
          extracted_tables = []\<rparr> \<and>
   process_extracted_table frame_numeric =
     Inr [\<lparr>columns = [(1, [0xC801, 0xD569, 0xC5EC, 0xBD80])],
           rows = [[([0xC801, 0xD569, 0xC5EC, 0xBD80], Str [0xC801, 0xD569])]],
           target_index = 1\<rparr>]"
  by (simp add: frame_numeric_def eval_simps)

lemma is_trigger_iff:
  "is_trigger item =
     (\<exists>s. item = Str s \<and>
          filter (\<lambda>c. c \<noteq> 0x20) s \<in>
            {[0xBC18, 0xC601, 0xC5EC, 0xBD80], [0xC801, 0xD569, 0xC5EC, 0xBD80]})"
  by (cases item) (auto simp: is_trigger_def replace_space_def trigger_literals_def)

subsection \<open>Trigger detection\<close>

text \<open>
  Claim C5, as the code has it. A cell is a trigger exactly when it is a text that, after
  every space character U+0020 is removed, equals one of the two markers; the first marker
  written with a space inside is recognised like the marker itself. The scan of a row
  returns the smallest index of a trigger cell, and in the inactive state that index
  becomes the target index of the new table, built with the column map of the row; a row
  without a trigger cell leaves the state unchanged.
\<close>

theorem trigger_detection:
  "(is_trigger item =
      (\<exists>s. item = Str s \<and>
           filter (\<lambda>c. c \<noteq> 0x20) s \<in>
             {[0xBC18, 0xC601, 0xC5EC, 0xBD80], [0xC801, 0xD569, 0xC5EC, 0xBD80]})) \<and>
   is_trigger (Str [0xBC18, 0xC601, 0x20, 0xC5EC, 0xBD80]) \<and>
   is_trigger (Str [0xBC18, 0xC601, 0xC5EC, 0xBD80]) \<and>
   ((find_trigger (enumerate 0 row) = Some i) =
      (i < length row \<and> is_trigger (row ! i) \<and> (\<forall>j<i. \<not> is_trigger (row ! j)))) \<and>
   ((find_trigger (enumerate 0 row) = None) = (\<forall>c\<in>set row. \<not> is_trigger c)) \<and>
   (\<not> table_detected st \<longrightarrow> find_trigger (enumerate 0 row) = Some i \<longrightarrow>
      step st row =
        Inr (st\<lparr>table_detected := True,
                curr_table := Some \<lparr>columns = extract_columns row, rows = [], target_index = i\<rparr>\<rparr>)) \<and>
   (\<not> table_detected st \<longrightarrow> find_trigger (enumerate 0 row) = None \<longrightarrow> step st row = Inr st)"
proof -
  have a: "is_trigger (Str [0xBC18, 0xC601, 0x20, 0xC5EC, 0xBD80])"
    by (simp add: is_trigger_def replace_space_def trigger_literals_def)
  have b: "is_trigger (Str [0xBC18, 0xC601, 0xC5EC, 0xBD80])"
    by (simp add: is_trigger_def replace_space_def trigger_literals_def)
  have c: "(find_trigger (enumerate 0 row) = Some i) =
      (i < length row \<and> is_trigger (row ! i) \<and> (\<forall>j<i. \<not> is_trigger (row ! j)))"
    by (simp add: find_trigger_enumerate)
  have d: "\<not> table_detected st \<Longrightarrow> find_trigger (enumerate 0 row) = Some i \<Longrightarrow>
      step st row =
        Inr (st\<lparr>table_detected := True,
                curr_table := Some \<lparr>columns = extract_columns row, rows = [], target_index = i\<rparr>\<rparr>)"
    by (simp add: step_inactive)
  have e: "\<not> table_detected st \<Longrightarrow> find_trigger (enumerate 0 row) = None \<Longrightarrow> step st row = Inr st"
    by (simp add: step_inactive)
  from is_trigger_iff [of item] a b c find_trigger_None [of 0 row] d e show ?thesis by blast
qed

theorem trigger_detection_witness:
  "find_trigger (enumerate 0 [Number 0, Str [], Str [0xBC18, 0xC601, 0x20, 0xC5EC, 0xBD80],
                               Str [0xC801, 0xD569, 0xC5EC, 0xBD80]]) = Some 2 \<and>
   step init_state [Number 0, Str [], Str [0xBC18, 0xC601, 0x20, 0xC5EC, 0xBD80],
                    Str [0xC801, 0xD569, 0xC5EC, 0xBD80]] =
     Inr \<lparr>table_detected = True,
          curr_table = Some \<lparr>columns = [(1, []), (2, [0xBC18, 0xC601, 0x20, 0xC5EC, 0xBD80]),
                                         (3, [0xC801, 0xD569, 0xC5EC, 0xBD80])],
                              rows = [], target_index = 2\<rparr>,
          extracted_tables = []\<rparr> \<and>
   step init_state [Number 1, Str [0x78]] = Inr init_state"
proof -
  let ?row = "[Number 0, Str [], Str [0xBC18, 0xC601, 0x20, 0xC5EC, 0xBD80],
               Str [0xC801, 0xD569, 0xC5EC, 0xBD80]]"
  have i: "\<not> table_detected init_state" by (simp add: init_state_def)
  have f: "find_trigger (enumerate 0 ?row) = Some 2"
    by (simp add: is_trigger_def replace_space_def trigger_literals_def)
  have g: "find_trigger (enumerate 0 [Number 1, Str [0x78]]) = None"
    by (simp add: is_trigger_def replace_space_def trigger_literals_def)
  have e: "extract_columns ?row = [(1, []), (2, [0xBC18, 0xC601, 0x20, 0xC5EC, 0xBD80]),
                                         (3, [0xC801, 0xD569, 0xC5EC, 0xBD80])]"
    by (simp add: extract_columns_def extract_loop_def)
  from trigger_detection [of _ ?row 2 init_state] i f
  have "step init_state ?row =
        Inr (init_state\<lparr>table_detected := True,
                curr_table := Some \<lparr>columns = extract_columns ?row, rows = [], target_index = 2\<rparr>\<rparr>)"
    by blast
  moreover from trigger_detection [of _ "[Number 1, Str [0x78]]" _ init_state] i g
  have "step init_state [Number 1, Str [0x78]] = Inr init_state" by blast
  ultimately show ?thesis using f e by (simp add: init_state_def)
qed

text \<open>
  Claim C5 as stated fails for a marker broken by a line feed: with all whitespace
  removed the cell equals the first marker, but it is not a trigger, and the frame that
  holds it yields no table.
\<close>

theorem whitespace_counterexample:
  "spec_remove_whitespace [0xBC18, 0xC601, 0x0A, 0xC5EC, 0xBD80] = [0xBC18, 0xC601, 0xC5EC, 0xBD80] \<and>
   \<not> is_trigger (Str [0xBC18, 0xC601, 0x0A, 0xC5EC, 0xBD80]) \<and>
   process_extracted_table frame_line_break = Inr []"
  by (simp add: spec_remove_whitespace_def frame_line_break_def eval_simps)

subsection \<open>Row records\<close>

text \<open>
  Claim C4, as the code has it. A row accepted while a table is current appends one
  record to that table. With the headers of the column map pairwise distinct (as
  \<open>extract_columns\<close> builds them), the record maps a header to a value exactly when the
  header is a non-empty text stored in the column map at the index of a cell of the row
  that holds the value; a column whose header is the empty text gets no entry. The cell
  at the target index is projected like any other when its header is non-empty, and a
  header occurs in the record at most once.
\<close>

theorem row_record_projection:
  assumes "table_detected st" and "curr_table st = Some t"
    and "target_value t row = Inr (Str tv)" and "any_in accept_literals tv"
    and "distinct (map snd (columns t))"
  shows "step st row =
           Inr (st\<lparr>curr_table := Some (t\<lparr>rows := rows t @ [build_row (columns t) row]\<rparr>)\<rparr>) \<and>
         ((map_of (build_row (columns t) row) h = Some v) =
            (h \<noteq> [] \<and> (\<exists>i<length row. map_of (columns t) i = Some h \<and> row ! i = v))) \<and>
         (map_of (columns t) (target_index t) = Some h \<and> h \<noteq> [] \<longrightarrow>
            map_of (build_row (columns t) row) h = Some (row ! target_index t)) \<and>
         distinct (map fst (build_row (columns t) row))"
proof -
  have "map_of (build_row (columns t) row) h = Some (row ! target_index t)"
    if "map_of (columns t) (target_index t) = Some h" "h \<noteq> []"
    using build_row_target [OF assms(5) that assms(3,4)] target_value_accept [OF assms(3,4)]
    by simp
  with step_keep [OF assms(1-4)] build_row_lookup [OF assms(5), of row h v]
    build_row_keys_distinct [of "columns t" row]
  show ?thesis by blast
qed

theorem row_record_projection_witness:
  "step \<lparr>table_detected = True,
         curr_table = Some \<lparr>columns = [(1, []), (2, [0xC801, 0xD569, 0xC5EC, 0xBD80]), (4, [0xBE44, 0xACE0])],
                             rows = [], target_index = 2\<rparr>,
         extracted_tables = []\<rparr>
        [Number 1, Str [0x58], Str [0xC801, 0xD569], Str [], Str [0x6F, 0x6B]] =
     Inr \<lparr>table_detected = True,
          curr_table = Some \<lparr>columns = [(1, []), (2, [0xC801, 0xD569, 0xC5EC, 0xBD80]), (4, [0xBE44, 0xACE0])],
                              rows = [[([0xC801, 0xD569, 0xC5EC, 0xBD80], Str [0xC801, 0xD569]),
                                       ([0xBE44, 0xACE0], Str [0x6F, 0x6B])]],
                              target_index = 2\<rparr>,
          extracted_tables = []\<rparr> \<and>
   map_of (build_row [(1, []), (2, [0xC801, 0xD569, 0xC5EC, 0xBD80]), (4, [0xBE44, 0xACE0])]
             [Number 1, Str [0x58], Str [0xC801, 0xD569], Str [], Str [0x6F, 0x6B]])
      [0xC801, 0xD569, 0xC5EC, 0xBD80] = Some (Str [0xC801, 0xD569])"
proof -
  let ?t = "\<lparr>columns = [(1, []), (2, [0xC801, 0xD569, 0xC5EC, 0xBD80]), (4, [0xBE44, 0xACE0])],
             rows = [], target_index = 2\<rparr>"
  let ?st = "\<lparr>table_detected = True, curr_table = Some ?t, extracted_tables = []\<rparr>"
  let ?row = "[Number 1, Str [0x58], Str [0xC801, 0xD569], Str [], Str [0x6F, 0x6B]]"
  have d: "table_detected ?st" by simp
  have c: "curr_table ?st = Some ?t" by simp
  have v: "target_value ?t ?row = Inr (Str [0xC801, 0xD569])"
    by (simp add: target_value_def getitem_def)
  have a: "any_in accept_literals [0xC801, 0xD569]"
    by (simp add: any_in_def str_in_def accept_literals_def sublist_code(3))
  have u: "distinct (map snd (columns ?t))" by simp
  have b: "build_row (columns ?t) ?row =
             [([0xC801, 0xD569, 0xC5EC, 0xBD80], Str [0xC801, 0xD569]), ([0xBE44, 0xACE0], Str [0x6F, 0x6B])]"
    by (simp add: build_row_def)
  from row_record_projection [OF d c v a u, of "[0xC801, 0xD569, 0xC5EC, 0xBD80]" "Str [0xC801, 0xD569]"]
  show ?thesis using b by simp
qed

text \<open>
  Claim C4 as stated fails on the second row of Scenario A: index 1 is a key of the
  column map built from the marker row (its header is the empty text), and the record of
  the accepted row has no entry for that column.
\<close>

theorem empty_header_counterexample:
  "extract_columns [Number 0, Str [], Str [0xC801, 0xD569, 0xC5EC, 0xBD80], Str [], Str [0xBE44, 0xACE0]] =
     [(1, []), (2, [0xC801, 0xD569, 0xC5EC, 0xBD80]), (4, [0xBE44, 0xACE0])] \<and>
   map_of [(1, []), (2, [0xC801, 0xD569, 0xC5EC, 0xBD80]), (4, [0xBE44, 0xACE0])] (1::nat) = Some [] \<and>
   build_row [(1, []), (2, [0xC801, 0xD569, 0xC5EC, 0xBD80]), (4, [0xBE44, 0xACE0])]
     [Number 1, Str [0x58], Str [0xC801, 0xD569], Str [], Str [0x6F, 0x6B]] =
     [([0xC801, 0xD569, 0xC5EC, 0xBD80], Str [0xC801, 0xD569]), ([0xBE44, 0xACE0], Str [0x6F, 0x6B])] \<and>
   map_of (build_row [(1, []), (2, [0xC801, 0xD569, 0xC5EC, 0xBD80]), (4, [0xBE44, 0xACE0])]
             [Number 1, Str [0x58], Str [0xC801, 0xD569], Str [], Str [0x6F, 0x6B]]) [] = None"
  by (simp add: extract_columns_def extract_loop_def build_row_def)

subsection \<open>Scenario A\<close>

text \<open>
  The whole output on Scenario A. Row "Y" is kept as well: its target text, the first
  reject literal, contains the first accept literal, and the accept test comes first.
\<close>

lemma scenario_A_full_output:
  "process_extracted_table scenario_A =
     Inr [\<lparr>columns = [(1, []), (2, [0xC801, 0xD569, 0xC5EC, 0xBD80]), (4, [0xBE44, 0xACE0])],
           rows = [[([0xC801, 0xD569, 0xC5EC, 0xBD80], Str [0xC801, 0xD569]),
                    ([0xBE44, 0xACE0], Str [0x6F, 0x6B])],
                   [([0xC801, 0xD569, 0xC5EC, 0xBD80], Str [0xBBF8, 0xBC18, 0xC601]),
                    ([0xBE44, 0xACE0], Str [0x6E, 0x2F, 0x61])]],
           target_index = 2\<rparr>]"
  by (simp add: scenario_A_def eval_simps)

text \<open>
  Claim C3, as the code has it. On Scenario A the output is exactly one table. The row
  tuples carry the index label at position 0, so the marker sits at position 2: the
  target index is 2 and the column map has the keys 1, 2 and 4: the empty text of the
  first cell is a header too, the marker is at 2 and the fourth cell at 4. The first record of the table is
  the one of row "X". The table is still current after the third row and is closed by the
  fourth, whose target value matches neither literal set.
\<close>

theorem scenario_A_output:
  "(\<exists>more. process_extracted_table scenario_A =
      Inr [\<lparr>columns = [(1, []), (2, [0xC801, 0xD569, 0xC5EC, 0xBD80]), (4, [0xBE44, 0xACE0])],
            rows = [([0xC801, 0xD569, 0xC5EC, 0xBD80], Str [0xC801, 0xD569]),
                    ([0xBE44, 0xACE0], Str [0x6F, 0x6B])] # more,
            target_index = 2\<rparr>]) \<and>
   (\<exists>st. run_rows init_state (itertuples (take 3 scenario_A)) = Inr st \<and>
         table_detected st \<and> extracted_tables st = []) \<and>
   (\<exists>st. run_rows init_state (itertuples scenario_A) = Inr st \<and>
         \<not> table_detected st \<and> curr_table st = None \<and> length (extracted_tables st) = 1)"
  by (simp add: scenario_A_def eval_simps)

text \<open>
  Claim C3 as stated fails: the output on Scenario A is not the single table with target
  index 1 and a column map with the keys 1 and 3, neither for the frame nor when the four
  rows are taken as the row tuples themselves.
\<close>

theorem scenario_A_counterexample:
  "process_extracted_table scenario_A \<noteq>
     Inr [\<lparr>columns = [(1, [0xC801, 0xD569, 0xC5EC, 0xBD80]), (3, [0xBE44, 0xACE0])],
           rows = [[([0xC801, 0xD569, 0xC5EC, 0xBD80], Str [0xC801, 0xD569]),
                    ([0xBE44, 0xACE0], Str [0x6F, 0x6B])]],
           target_index = 1\<rparr>] \<and>
   process_rows (map snd scenario_A) \<noteq>
     Inr [\<lparr>columns = [(1, [0xC801, 0xD569, 0xC5EC, 0xBD80]), (3, [0xBE44, 0xACE0])],
           rows = [[([0xC801, 0xD569, 0xC5EC, 0xBD80], Str [0xC801, 0xD569]),
                    ([0xBE44, 0xACE0], Str [0x6F, 0x6B])]],
           target_index = 1\<rparr>]"
  by (simp add: scenario_A_def eval_simps)

end
